theory Spec2Isabelle
  imports Complex_Main
begin

section \<open>Data model of \<open>app2/video/video_run.py\<close>\<close>

text \<open>
  Python exceptions that the pipeline code can meet. Only \<open>ValueError\<close> is named
  in an \<open>except\<close> clause of the source; every other exception leaves the function
  that meets it.
\<close>

datatype exn = ValueError | KeyError | TypeError | AttributeError | ZeroDivisionError

text \<open>
  How a stage function ends: it returns, an exception leaves it, or it waits
  forever in a blocking \<open>get\<close> on a queue that receives nothing more.
\<close>

datatype 'a result = Returned 'a | Raised exn | Blocked

text \<open>
  A \<open>datetime\<close> has microsecond resolution: the model counts microseconds.
  \<open>timedelta.total_seconds()\<close> is a Python float; the model takes the real number
  it approximates, so rounding of floats is outside the model.
\<close>

type_synonym datetime = int

definition total_seconds :: "int \<Rightarrow> real" where
  "total_seconds d = real_of_int d / 1000000"

text \<open>
  What travels on a \<open>multiprocessing.Queue\<close> here: the plain integer \<open>FINISH\<close>, or
  a payload (the tuple \<open>(image_start_time, raw_data)\<close> on \<open>data_queue\<close>, a
  \<open>VideoMetrics\<close> on \<open>result_queue\<close>).
\<close>

datatype 'a queue_item = IntItem int | Payload 'a

definition FINISH :: int where
  "FINISH = 1"

type_synonym 'px frame = "datetime \<times> 'px"

record ('mt, 'sc) VideoMetrics =
  time :: datetime
  metrics :: "'mt \<rightharpoonup> 'sc"

text \<open>
  One blocking \<open>get\<close> of a consumer either delivers an item or raises. The list of
  these outcomes, in order, is what the consumer sees of its queue; when the list
  is used up the next \<open>get\<close> never returns.
\<close>

type_synonym 'a get_event = "exn + 'a queue_item"

definition chan :: "'a queue_item list \<Rightarrow> 'a get_event list" where
  "chan items = map Inr items"

section \<open>The scoring stage: \<open>compute_metrics\<close>\<close>

text \<open>
  \<open>get_no_ref_score\<close> and the enumeration \<open>MetricType\<close> live in
  \<open>app2.video.metrics.image_score\<close>, which is not part of the sources at hand.
  They are parameters: \<open>mts\<close> is the list of members of \<open>MetricType\<close> in iteration
  order, and \<open>score\<close> is the scoring call, which as any Python call may raise and
  may read and change state \<open>'s\<close> of its own.
\<close>

type_synonym ('px, 'mt, 'sc, 's) scorer = "'px \<Rightarrow> 'mt \<Rightarrow> 's \<Rightarrow> (exn + 'sc) \<times> 's"

text \<open>
  The dict comprehension
  \<open>{metric_type: get_no_ref_score(image_data, metric_type) for metric_type in MetricType}\<close>.
\<close>

fun score_all ::
  "('px, 'mt, 'sc, 's) scorer \<Rightarrow> 'px \<Rightarrow> 'mt list \<Rightarrow> ('mt \<rightharpoonup> 'sc) \<Rightarrow> 's
     \<Rightarrow> (exn + ('mt \<rightharpoonup> 'sc)) \<times> 's" where
  "score_all score image_data [] m s = (Inr m, s)"
| "score_all score image_data (metric_type # mts) m s =
     (case score image_data metric_type s of
        (Inl e, s') \<Rightarrow> (Inl e, s')
      | (Inr v, s') \<Rightarrow> score_all score image_data mts (m(metric_type \<mapsto> v)) s')"

text \<open>
  The handler of the loop of \<open>compute_metrics\<close>: \<open>except ValueError\<close> leaves the
  loop, after which \<open>FINISH\<close> is put on \<open>result_queue\<close> and the function returns;
  any other exception leaves the function at once.
\<close>

definition compute_metrics_except ::
  "exn \<Rightarrow> 's \<Rightarrow> ('mt, 'sc) VideoMetrics queue_item list \<times> unit result \<times> 's" where
  "compute_metrics_except e s =
     (if e = ValueError then ([IntItem FINISH], Returned (), s) else ([], Raised e, s))"

text \<open>
  \<open>compute_metrics\<close> gives the items put on \<open>result_queue\<close> in order, how the
  function ended, and the scorer's state at that point. An integer other than
  \<open>FINISH\<close> on \<open>data_queue\<close> fails to unpack as a tuple (\<open>TypeError\<close>).
\<close>

fun compute_metrics ::
  "('px, 'mt, 'sc, 's) scorer \<Rightarrow> 'mt list \<Rightarrow> 'px frame get_event list \<Rightarrow> 's
     \<Rightarrow> ('mt, 'sc) VideoMetrics queue_item list \<times> unit result \<times> 's" where
  "compute_metrics score mts [] s = ([], Blocked, s)"
| "compute_metrics score mts (Inl e # evs) s = compute_metrics_except e s"
| "compute_metrics score mts (Inr (IntItem n) # evs) s =
     (if n = FINISH then ([IntItem FINISH], Returned (), s)
      else compute_metrics_except TypeError s)"
| "compute_metrics score mts (Inr (Payload (image_capture_time, image_data)) # evs) s =
     (case score_all score image_data mts Map.empty s of
        (Inl e, s') \<Rightarrow> compute_metrics_except e s'
      | (Inr m, s') \<Rightarrow>
          (case compute_metrics score mts evs s' of
             (out, r, s'') \<Rightarrow>
               (Payload \<lparr>time = image_capture_time, metrics = m\<rparr> # out, r, s'')))"

text \<open>The payloads among queue items, and the frames a consumer is offered.\<close>

fun payloads :: "'a queue_item list \<Rightarrow> 'a list" where
  "payloads [] = []"
| "payloads (Payload x # xs) = x # payloads xs"
| "payloads (IntItem n # xs) = payloads xs"

fun offered :: "'a get_event list \<Rightarrow> 'a list" where
  "offered [] = []"
| "offered (Inr (Payload x) # evs) = x # offered evs"
| "offered (_ # evs) = offered evs"

section \<open>The sink stage: \<open>graph_metrics\<close>\<close>

text \<open>
  \<open>image_scores\<close> is a \<open>defaultdict(list)\<close>: every key reads as a list, the empty
  one at first. The inner loop
  \<open>for metric_type in MetricType: image_scores[metric_type].append(metric_record.metrics[metric_type])\<close>
  raises \<open>KeyError\<close> when the record lacks a metric.
\<close>

fun append_scores ::
  "'mt list \<Rightarrow> ('mt \<rightharpoonup> 'sc) \<Rightarrow> ('mt \<Rightarrow> 'sc list) \<Rightarrow> exn + ('mt \<Rightarrow> 'sc list)" where
  "append_scores [] m image_scores = Inr image_scores"
| "append_scores (metric_type # mts) m image_scores =
     (case m metric_type of
        None \<Rightarrow> Inl KeyError
      | Some x \<Rightarrow>
          append_scores mts m (image_scores(metric_type := image_scores metric_type @ [x])))"

text \<open>
  The loop of \<open>graph_metrics\<close>, with the lists \<open>times\<close> and \<open>image_scores\<close> it
  fills (\<open>tms\<close> stands for \<open>times\<close>, which HOL reserves). Both the sentinel and a \<open>ValueError\<close> leave the loop with what has been
  gathered; an integer other than \<open>FINISH\<close> has no attribute \<open>time\<close>.
\<close>

fun graph_loop ::
  "'mt list \<Rightarrow> ('mt, 'sc) VideoMetrics get_event list \<Rightarrow> datetime list \<Rightarrow> ('mt \<Rightarrow> 'sc list)
     \<Rightarrow> (datetime list \<times> ('mt \<Rightarrow> 'sc list)) result" where
  "graph_loop mts [] tms image_scores = Blocked"
| "graph_loop mts (Inl e # evs) tms image_scores =
     (if e = ValueError then Returned (tms, image_scores) else Raised e)"
| "graph_loop mts (Inr (IntItem n) # evs) tms image_scores =
     (if n = FINISH then Returned (tms, image_scores) else Raised AttributeError)"
| "graph_loop mts (Inr (Payload metric_record) # evs) tms image_scores =
     (case append_scores mts (metrics metric_record) image_scores of
        Inl e \<Rightarrow> Raised e
      | Inr image_scores' \<Rightarrow>
          graph_loop mts evs (tms @ [time metric_record]) image_scores')"

text \<open>
  The plotting part, after the loop and outside its \<open>try\<close>, hands the gathered
  lists to matplotlib: \<open>fig, ax = plt.subplots(len(MetricType), 1, ...)\<close>, then for
  each member of \<open>MetricType\<close> the row \<open>ax[row_idx]\<close> plots \<open>times\<close> against
  \<open>image_scores[metric_type]\<close>, and the figure is saved under \<open>graph_dir\<close>.
  \<open>plt.subplots\<close> raises \<open>ValueError\<close> when asked for no row; asked for one row it
  returns a single \<open>Axes\<close>, not an array, and \<open>ax[row_idx]\<close> raises \<open>TypeError\<close>;
  only with two rows or more is \<open>ax\<close> an array the loop can index. So the function
  returns a chart exactly when \<open>MetricType\<close> has at least two members. The chart
  records the plot calls and the file name; a \<open>savefig\<close> that fails (a directory
  that does not exist) is not modelled.
\<close>

record ('mt, 'sc) chart =
  plot_rows :: "('mt \<times> datetime list \<times> 'sc list) list"
  image_filename :: string

definition graph_metrics ::
  "string \<Rightarrow> 'mt list \<Rightarrow> ('mt, 'sc) VideoMetrics get_event list \<Rightarrow> ('mt, 'sc) chart result" where
  "graph_metrics graph_dir mts evs =
     (case graph_loop mts evs [] (\<lambda>_. []) of
        Returned (tms, image_scores) \<Rightarrow>
          if length mts = 0 then Raised ValueError
          else if length mts = 1 then Raised TypeError
          else
            Returned \<lparr>plot_rows = map (\<lambda>metric_type. (metric_type, tms, image_scores metric_type)) mts,
                      image_filename = graph_dir @ ''/'' @ ''frame_timeline.png''\<rparr>
      | Raised e \<Rightarrow> Raised e
      | Blocked \<Rightarrow> Blocked)"

section \<open>The capture stage: \<open>get_zoom_window_id\<close> and \<open>capture_images\<close>\<close>

text \<open>
  An entry of the window list of Quartz is a dictionary; the three keys the code
  reads may each be absent. \<open>win[key]\<close> raises \<open>KeyError\<close> on an absent key,
  \<open>win.get(key, '')\<close> gives the empty string, and \<open>int('')\<close> raises \<open>ValueError\<close>.
\<close>

record window =
  kCGWindowOwnerName :: "string option"
  kCGWindowName :: "string option"
  kCGWindowNumber :: "int option"

fun get_zoom_window_id :: "window list \<Rightarrow> exn + int" where
  "get_zoom_window_id [] = Inr (- 1)"
| "get_zoom_window_id (win # windows) =
     (case kCGWindowOwnerName win of
        None \<Rightarrow> Inl KeyError
      | Some owner \<Rightarrow>
          if owner = ''zoom.us''
             \<and> (case kCGWindowName win of None \<Rightarrow> [] | Some name \<Rightarrow> name) = ''Zoom Meeting''
          then (case kCGWindowNumber win of None \<Rightarrow> Inl ValueError | Some n \<Rightarrow> Inr n)
          else get_zoom_window_id windows)"

text \<open>
  What \<open>capture_images\<close> does to the world, in order: a call of \<open>capture_image\<close>
  with a window number, a \<open>put\<close> on \<open>data_queue\<close>, a \<open>time.sleep\<close>, and the \<open>close\<close>
  of the queue. (The \<open>print\<close> calls are left out.)
\<close>

datatype 'px event = Capture int | Put "'px frame queue_item" | Sleep real | Close

fun puts :: "'px event list \<Rightarrow> 'px frame queue_item list" where
  "puts [] = []"
| "puts (Put x # tr) = x # puts tr"
| "puts (_ # tr) = puts tr"

text \<open>
  The world of the capture stage: \<open>clock k\<close> is what the \<open>k\<close>-th call of
  \<open>datetime.now()\<close> returns (counting from 0), and \<open>screen j window_num\<close> is what the
  \<open>j\<close>-th call of \<open>capture_image\<close> does, a pixel buffer or an exception out of
  Quartz or numpy. Nothing is assumed of either.

  The \<open>while\<close> loop may run forever (a clock that stands still never reaches the
  five seconds), so the loop takes fuel, one unit per test of its condition, and
  gives \<open>None\<close> when the fuel is used up. \<open>k\<close> and \<open>j\<close> count the calls made so far.
\<close>

fun capture_loop ::
  "nat \<Rightarrow> (nat \<Rightarrow> datetime) \<Rightarrow> (nat \<Rightarrow> int \<Rightarrow> exn + 'px) \<Rightarrow> int \<Rightarrow> real \<Rightarrow> datetime
     \<Rightarrow> nat \<Rightarrow> nat \<Rightarrow> ('px event list \<times> unit result) option" where
  "capture_loop 0 clock screen window_num time_between_frame capture_start_time k j = None"
| "capture_loop (Suc fuel) clock screen window_num time_between_frame capture_start_time k j =
     (if total_seconds (clock k - capture_start_time) \<le> 5 then
        (let image_start_time = clock (k + 1) in
         case screen j window_num of
           Inl e \<Rightarrow> Some ([Capture window_num], Raised e)
         | Inr raw_data \<Rightarrow>
             (let image_finish_time = clock (k + 2);
                  diff = total_seconds (image_finish_time - image_start_time);
                  tick = [Capture window_num, Put (Payload (image_start_time, raw_data))]
                         @ (if diff < time_between_frame
                            then [Sleep (time_between_frame - diff)] else [])
              in case capture_loop fuel clock screen window_num time_between_frame
                        capture_start_time (k + 3) (j + 1) of
                   None \<Rightarrow> None
                 | Some (tr, r) \<Rightarrow> Some (tick @ tr, r)))
      else Some ([], Returned ()))"

text \<open>
  \<open>capture_images\<close>: the window is looked up, \<open>1/frame_rate\<close> is computed (Python
  raises on a zero divisor), the start time is read, the loop runs, and after it
  \<open>FINISH\<close> is put and the queue closed. No exception is caught anywhere.
\<close>

definition capture_images ::
  "nat \<Rightarrow> window list \<Rightarrow> (nat \<Rightarrow> datetime) \<Rightarrow> (nat \<Rightarrow> int \<Rightarrow> exn + 'px) \<Rightarrow> real
     \<Rightarrow> ('px event list \<times> unit result) option" where
  "capture_images fuel windows clock screen frame_rate =
     (case get_zoom_window_id windows of
        Inl e \<Rightarrow> Some ([], Raised e)
      | Inr window_num \<Rightarrow>
          if frame_rate = 0 then Some ([], Raised ZeroDivisionError)
          else
            (let time_between_frame = 1 / frame_rate;
                 capture_start_time = clock 0
             in case capture_loop fuel clock screen window_num time_between_frame
                       capture_start_time 1 0 of
                  None \<Rightarrow> None
                | Some (tr, Returned u) \<Rightarrow> Some (tr @ [Put (IntItem FINISH), Close], Returned ())
                | Some (tr, r) \<Rightarrow> Some (tr, r)))"

text \<open>
  The tick as the specification words it: one frame acquired and put with the time
  read before the acquisition, then a sleep for the slack \<open>1/r - diff\<close> when the
  tick took less than \<open>1/r\<close>, and no sleep otherwise.
\<close>

definition paced_tick :: "real \<Rightarrow> int \<Rightarrow> datetime \<Rightarrow> datetime \<Rightarrow> 'px \<Rightarrow> 'px event list" where
  "paced_tick r window_num t_start t_end raw =
     [Capture window_num, Put (Payload (t_start, raw))]
     @ (if total_seconds (t_end - t_start) < 1 / r
        then [Sleep (1 / r - total_seconds (t_end - t_start))] else [])"

section \<open>The orchestrator: \<open>run_video_processes\<close>\<close>

text \<open>
  \<open>run_video_processes\<close> makes the two queues and runs the three functions as
  processes: \<open>capture_images\<close> with frame rate 30 writing \<open>packet_queue\<close>,
  \<open>compute_metrics\<close> reading it and writing \<open>metrics_queue\<close>, \<open>graph_metrics\<close>
  reading that. Each queue has one writer and one reader and delivers in the order
  of the puts, so a reader sees the list its writer has put and then waits. The
  model composes the three functions along the queues and gives how each of them
  ended; the interleaving of the processes, \<open>start\<close> and \<open>join\<close> are not part of it.
\<close>

definition run_video_processes ::
  "nat \<Rightarrow> string \<Rightarrow> window list \<Rightarrow> (nat \<Rightarrow> datetime) \<Rightarrow> (nat \<Rightarrow> int \<Rightarrow> exn + 'px)
     \<Rightarrow> ('px, 'mt, 'sc, 's) scorer \<Rightarrow> 'mt list \<Rightarrow> 's
     \<Rightarrow> (unit result \<times> unit result \<times> ('mt, 'sc) chart result) option" where
  "run_video_processes fuel graph_dir windows clock screen score mts s =
     (case capture_images fuel windows clock screen 30 of
        None \<Rightarrow> None
      | Some (tr, process_capture) \<Rightarrow>
          (case compute_metrics score mts (chan (puts tr)) s of
             (metrics_queue, process_analysis, s') \<Rightarrow>
               Some (process_capture, process_analysis,
                     graph_metrics graph_dir mts (chan metrics_queue))))"

text \<open>
  A scoring call is deterministic when what it returns or raises does not depend
  on the state it is called in.
\<close>

definition deterministic :: "('px, 'mt, 'sc, 's) scorer \<Rightarrow> bool" where
  "deterministic score = (\<forall>px mt s s'. fst (score px mt s) = fst (score px mt s'))"

section \<open>Example worlds\<close>

text \<open>
  Inputs for the concrete runs below. \<open>readings ts\<close> is a clock that shows the
  listed readings, one per call of \<open>datetime.now()\<close>, and then stands still.
  \<open>finder_only\<close> is a window list without a Zoom meeting, \<open>zoom_open\<close> one with
  the meeting in window 42. Under \<open>paced_clock\<close> the first tick takes half a
  second and the second two and a half, and the third test of the loop condition
  comes six seconds after the start.
\<close>

definition readings :: "datetime list \<Rightarrow> nat \<Rightarrow> datetime" where
  "readings ts k = (if k < length ts then ts ! k else last ts)"

definition finder_only :: "window list" where
  "finder_only = [\<lparr>kCGWindowOwnerName = Some ''Finder'', kCGWindowName = None, kCGWindowNumber = Some 7\<rparr>]"

definition zoom_open :: "window list" where
  "zoom_open = [\<lparr>kCGWindowOwnerName = Some ''Finder'', kCGWindowName = None, kCGWindowNumber = Some 7\<rparr>,
                \<lparr>kCGWindowOwnerName = Some ''zoom.us'', kCGWindowName = Some ''Zoom Meeting'',
                 kCGWindowNumber = Some 42\<rparr>]"

definition paced_clock :: "nat \<Rightarrow> datetime" where
  "paced_clock = readings [0, 0, 0, 500000, 2000000, 2000000, 4500000, 6000000]"

section \<open>Lemmas on the stages\<close>

lemma score_all_dom:
  "score_all score px mts m s = (Inr m', s') \<Longrightarrow> dom m' = dom m \<union> set mts"
  by (induction mts arbitrary: m s) (auto split: prod.splits sum.splits)

lemma frame_event_cases:
  fixes ev :: "('t \<times> 'px) get_event"
  obtains (exn) e where "ev = Inl e"
  | (int) n where "ev = Inr (IntItem n)"
  | (frame) t px where "ev = Inr (Payload (t, px))"
proof (cases ev)
  case (Inl e) then show ?thesis using exn by blast
next
  case (Inr it)
  then show ?thesis using int frame by (cases it) auto
qed

lemma payloads_map_Payload [simp]: "payloads (map Payload vs) = vs"
  by (induction vs) auto

lemma payloads_append [simp]: "payloads (xs @ ys) = payloads xs @ payloads ys"
  by (induction xs rule: payloads.induct) auto

lemma compute_metrics_shape:
  "compute_metrics score mts evs s = (out, r, s') \<Longrightarrow>
     out = map Payload (payloads out) @ (if r = Returned () then [IntItem FINISH] else [])"
proof (induction evs arbitrary: s out r s')
  case Nil
  then show ?case by simp
next
  case (Cons ev evs)
  show ?case
  proof (cases ev rule: frame_event_cases)
    case (exn e)
    with Cons.prems show ?thesis by (auto simp: compute_metrics_except_def split: if_splits)
  next
    case (int n)
    with Cons.prems show ?thesis by (auto simp: compute_metrics_except_def split: if_splits)
  next
    case (frame t px)
    with Cons.prems Cons.IH show ?thesis
      by (fastforce simp: compute_metrics_except_def split: prod.splits sum.splits if_splits)
  qed
qed

lemma compute_metrics_keys:
  "compute_metrics score mts evs s = (out, r, s') \<Longrightarrow> v \<in> set (payloads out) \<Longrightarrow>
     dom (metrics v) = set mts"
proof (induction evs arbitrary: s out r s')
  case Nil
  then show ?case by simp
next
  case (Cons ev evs)
  show ?thesis
  proof (cases ev rule: frame_event_cases)
    case (exn e)
    with Cons.prems show ?thesis by (auto simp: compute_metrics_except_def split: if_splits)
  next
    case (int n)
    with Cons.prems show ?thesis by (auto simp: compute_metrics_except_def split: if_splits)
  next
    case (frame t px)
    with Cons.prems Cons.IH show ?thesis
      by (fastforce simp: compute_metrics_except_def dest: score_all_dom split: prod.splits sum.splits if_splits)
  qed
qed

lemma compute_metrics_times:
  "compute_metrics score mts evs s = (out, r, s') \<Longrightarrow>
     map time (payloads out) = take (length (payloads out)) (map fst (offered evs))"
proof (induction evs arbitrary: s out r s')
  case Nil
  then show ?case by simp
next
  case (Cons ev evs)
  show ?case
  proof (cases ev rule: frame_event_cases)
    case (exn e)
    with Cons.prems show ?thesis by (auto simp: compute_metrics_except_def split: if_splits)
  next
    case (int n)
    with Cons.prems show ?thesis by (auto simp: compute_metrics_except_def split: if_splits)
  next
    case (frame t px)
    with Cons.prems Cons.IH show ?thesis
      by (fastforce simp: compute_metrics_except_def split: prod.splits sum.splits if_splits)
  qed
qed

lemma puts_append [simp]: "puts (xs @ ys) = puts xs @ puts ys"
  by (induction xs rule: puts.induct) auto


lemma capture_images_cases:
  assumes "capture_images fuel windows clock screen frame_rate = Some (tr, r)"
  obtains (no_window) e where "get_zoom_window_id windows = Inl e" "tr = []" "r = Raised e"
  | (zero_rate) w where "get_zoom_window_id windows = Inr w" "frame_rate = 0" "tr = []"
      "r = Raised ZeroDivisionError"
  | (finished) w tr' where "get_zoom_window_id windows = Inr w" "frame_rate \<noteq> 0"
      "capture_loop fuel clock screen w (1 / frame_rate) (clock 0) 1 0 = Some (tr', Returned ())"
      "tr = tr' @ [Put (IntItem FINISH), Close]" "r = Returned ()"
  | (died) w e where "get_zoom_window_id windows = Inr w" "frame_rate \<noteq> 0"
      "capture_loop fuel clock screen w (1 / frame_rate) (clock 0) 1 0 = Some (tr, Raised e)"
      "r = Raised e"
  | (blocked) w where "get_zoom_window_id windows = Inr w" "frame_rate \<noteq> 0"
      "capture_loop fuel clock screen w (1 / frame_rate) (clock 0) 1 0 = Some (tr, Blocked)"
      "r = Blocked"
proof (cases "get_zoom_window_id windows")
  case (Inl e)
  with assms have "tr = []" "r = Raised e" by (simp_all add: capture_images_def)
  with Inl show ?thesis by (rule no_window)
next
  case (Inr w)
  show ?thesis
  proof (cases "frame_rate = 0")
    case True
    with Inr assms have "tr = []" "r = Raised ZeroDivisionError"
      by (simp_all add: capture_images_def)
    with Inr True show ?thesis by (rule zero_rate)
  next
    case False
    let ?loop = "capture_loop fuel clock screen w (1 / frame_rate) (clock 0) 1 0"
    from assms Inr False
    have run: "(case ?loop of None \<Rightarrow> None
                | Some (tr, Returned u) \<Rightarrow> Some (tr @ [Put (IntItem FINISH), Close], Returned ())
                | Some (tr, r) \<Rightarrow> Some (tr, r)) = Some (tr, r)"
      by (simp add: capture_images_def)
    show ?thesis
    proof (cases ?loop)
      case None
      with run show ?thesis by simp
    next
      case (Some p)
      obtain tr' r' where p: "p = (tr', r')" by (cases p)
      show ?thesis
      proof (cases r')
        case (Returned u)
        with Some p run have "tr = tr' @ [Put (IntItem FINISH), Close]" "r = Returned ()"
          by simp_all
        moreover from Some p Returned have "?loop = Some (tr', Returned ())" by simp
        ultimately show ?thesis using Inr False finished by blast
      next
        case (Raised e)
        with Some p run have "tr = tr'" "r = Raised e" by simp_all
        moreover from Some p Raised have "?loop = Some (tr', Raised e)" by simp
        ultimately show ?thesis using Inr False died by blast
      next
        case Blocked
        with Some p run have "tr = tr'" "r = Blocked" by simp_all
        moreover from Some p Blocked have "?loop = Some (tr', Blocked)" by simp
        ultimately show ?thesis using Inr False blocked by blast
      qed
    qed
  qed
qed


lemma upt_shift: "map f [0..<Suc n] = f 0 # map (\<lambda>i. f (Suc i)) [0..<n]"
  by (simp add: upt_conv_Cons map_Suc_upt[symmetric] del: upt_Suc)

lemma capture_loop_trace:
  "capture_loop fuel clock screen w (1 / r) t0 k j = Some (tr, Returned ()) \<Longrightarrow>
     \<exists>raws. (\<forall>i<length raws. screen (j + i) w = Inr (raws ! i)
                  \<and> total_seconds (clock (k + 3 * i) - t0) \<le> 5)
        \<and> \<not> total_seconds (clock (k + 3 * length raws) - t0) \<le> 5
        \<and> tr = concat (map (\<lambda>i. paced_tick r w (clock (k + 3 * i + 1)) (clock (k + 3 * i + 2)) (raws ! i))
                          [0..<length raws])"
proof (induction fuel arbitrary: k j tr)
  case 0
  then show ?case by simp
next
  case (Suc fuel)
  show ?case
  proof (cases "total_seconds (clock k - t0) \<le> 5")
    case False
    with Suc.prems have "tr = []" by simp
    with False show ?thesis by (intro exI[of _ "[]"]) simp
  next
    case True
    with Suc.prems obtain raw where raw: "screen j w = Inr raw"
      by (cases "screen j w") (auto simp: Let_def)
    with True Suc.prems obtain tr' where
      rest: "capture_loop fuel clock screen w (1 / r) t0 (k + 3) (j + 1) = Some (tr', Returned ())"
      and tr: "tr = paced_tick r w (clock (k + 1)) (clock (k + 2)) raw @ tr'"
      by (auto simp: Let_def paced_tick_def split: option.splits)
    from Suc.IH[OF rest] obtain raws where
      ih1: "\<forall>i<length raws. screen (j + 1 + i) w = Inr (raws ! i)
              \<and> total_seconds (clock (k + 3 + 3 * i) - t0) \<le> 5"
      and ih2: "\<not> total_seconds (clock (k + 3 + 3 * length raws) - t0) \<le> 5"
      and ih3: "tr' = concat (map (\<lambda>i. paced_tick r w (clock (k + 3 + 3 * i + 1))
                    (clock (k + 3 + 3 * i + 2)) (raws ! i)) [0..<length raws])"
      by blast
    have a: "\<forall>i<length (raw # raws). screen (j + i) w = Inr ((raw # raws) ! i)
                  \<and> total_seconds (clock (k + 3 * i) - t0) \<le> 5"
    proof (intro allI impI)
      fix i assume "i < length (raw # raws)"
      then show "screen (j + i) w = Inr ((raw # raws) ! i)
                  \<and> total_seconds (clock (k + 3 * i) - t0) \<le> 5"
        using raw True ih1 by (cases i) (auto simp: algebra_simps)
    qed
    have b: "\<not> total_seconds (clock (k + 3 * length (raw # raws)) - t0) \<le> 5"
      using ih2 by (simp add: algebra_simps)
    have c: "tr = concat (map (\<lambda>i. paced_tick r w (clock (k + 3 * i + 1)) (clock (k + 3 * i + 2)) ((raw # raws) ! i))
                          [0..<length (raw # raws)])"
      unfolding tr ih3 by (simp add: upt_shift algebra_simps del: upt_Suc)
    from a b c show ?thesis by blast
  qed
qed

lemma capture_loop_returns:
  "(\<And>i. i < n \<Longrightarrow> total_seconds (clock (k + 3 * i) - t0) \<le> 5 \<and> (\<exists>raw. screen (j + i) w = Inr raw)) \<Longrightarrow>
   \<not> total_seconds (clock (k + 3 * n) - t0) \<le> 5 \<Longrightarrow>
   \<exists>tr. capture_loop (Suc n) clock screen w tbf t0 k j = Some (tr, Returned ())"
proof (induction n arbitrary: k j)
  case 0
  then show ?case by simp
next
  case (Suc n)
  from Suc.prems(1)[of 0] obtain raw where c0: "total_seconds (clock k - t0) \<le> 5"
    and raw: "screen j w = Inr raw" by auto
  have "\<exists>tr. capture_loop (Suc n) clock screen w tbf t0 (k + 3) (j + 1) = Some (tr, Returned ())"
  proof (rule Suc.IH)
    fix i assume "i < n"
    then show "total_seconds (clock (k + 3 + 3 * i) - t0) \<le> 5 \<and> (\<exists>raw. screen (j + 1 + i) w = Inr raw)"
      using Suc.prems(1)[of "Suc i"] by (simp add: algebra_simps)
  next
    show "\<not> total_seconds (clock (k + 3 + 3 * n) - t0) \<le> 5"
      using Suc.prems(2) by (simp add: algebra_simps)
  qed
  then obtain tr where "capture_loop (Suc n) clock screen w tbf t0 (k + 3) (j + 1) = Some (tr, Returned ())"
    by blast
  with c0 raw show ?case
    by (subst capture_loop.simps) (simp add: Let_def)
qed

lemma append_scores_distinct:
  "distinct mts \<Longrightarrow> set mts \<subseteq> dom m \<Longrightarrow>
     append_scores mts m sc = Inr (\<lambda>mt. if mt \<in> set mts then sc mt @ [the (m mt)] else sc mt)"
proof (induction mts arbitrary: sc)
  case Nil
  then show ?case by simp
next
  case (Cons a mts)
  from Cons.prems obtain x where x: "m a = Some x" by auto
  from Cons.prems have d: "distinct mts" "set mts \<subseteq> dom m" "a \<notin> set mts" by auto
  have "(\<lambda>mt. if mt \<in> set mts then (sc(a := sc a @ [x])) mt @ [the (m mt)] else (sc(a := sc a @ [x])) mt)
        = (\<lambda>mt. if mt \<in> set (a # mts) then sc mt @ [the (m mt)] else sc mt)"
    using d(3) x by (auto simp: fun_eq_iff)
  then show ?case using x Cons.IH[OF d(1,2)] by simp
qed

lemma graph_loop_payloads:
  "distinct mts \<Longrightarrow> \<forall>v\<in>set vs. set mts \<subseteq> dom (metrics v) \<Longrightarrow>
     graph_loop mts (chan (map Payload vs) @ rest) tms sc =
     graph_loop mts rest (tms @ map time vs)
       (\<lambda>mt. if mt \<in> set mts then sc mt @ map (\<lambda>v. the (metrics v mt)) vs else sc mt)"
proof (induction vs arbitrary: tms sc)
  case Nil
  have e: "(\<lambda>mt. if mt \<in> set mts then sc mt @ map (\<lambda>v. the (metrics v mt)) [] else sc mt) = sc"
    by (auto simp: fun_eq_iff)
  show ?case unfolding e by (simp add: chan_def)
next
  case (Cons v vs)
  have e: "(\<lambda>mt. if mt \<in> set mts
              then (\<lambda>mt. if mt \<in> set mts then sc mt @ [the (metrics v mt)] else sc mt) mt
                     @ map (\<lambda>v. the (metrics v mt)) vs
              else (\<lambda>mt. if mt \<in> set mts then sc mt @ [the (metrics v mt)] else sc mt) mt)
         = (\<lambda>mt. if mt \<in> set mts then sc mt @ map (\<lambda>v. the (metrics v mt)) (v # vs) else sc mt)"
    by (auto simp: fun_eq_iff)
  from Cons.prems have "set mts \<subseteq> dom (metrics v)" "\<forall>v\<in>set vs. set mts \<subseteq> dom (metrics v)"
    by auto
  with Cons.prems(1) Cons.IH[OF Cons.prems(1)] e show ?case
    by (simp add: chan_def append_scores_distinct)
qed

lemma score_all_deterministic:
  "deterministic score \<Longrightarrow> fst (score_all score px mts m s1) = fst (score_all score px mts m s2)"
proof (induction mts arbitrary: m s1 s2)
  case Nil
  then show ?case by simp
next
  case (Cons a mts)
  from Cons.prems have "fst (score px a s1) = fst (score px a s2)"
    by (simp add: deterministic_def)
  then show ?case using Cons.IH[OF Cons.prems]
    by (cases "score px a s1"; cases "score px a s2") (auto split: sum.splits)
qed

lemma compute_metrics_deterministic:
  "deterministic score \<Longrightarrow>
     fst (compute_metrics score mts evs s1) = fst (compute_metrics score mts evs s2)
   \<and> fst (snd (compute_metrics score mts evs s1)) = fst (snd (compute_metrics score mts evs s2))"
proof (induction evs arbitrary: s1 s2)
  case Nil
  then show ?case by simp
next
  case (Cons ev evs)
  show ?case
  proof (cases ev rule: frame_event_cases)
    case (exn e)
    then show ?thesis by (simp add: compute_metrics_except_def)
  next
    case (int n)
    then show ?thesis by (simp add: compute_metrics_except_def)
  next
    case (frame t px)
    obtain a1 t1 where r1: "score_all score px mts Map.empty s1 = (a1, t1)" by fastforce
    obtain a2 t2 where r2: "score_all score px mts Map.empty s2 = (a2, t2)" by fastforce
    from score_all_deterministic[OF Cons.prems, of px mts Map.empty s1 s2] r1 r2
    have "a2 = a1" by simp
    with r2 have r2': "score_all score px mts Map.empty s2 = (a1, t2)" by simp
    show ?thesis
    proof (cases a1)
      case (Inl e)
      with frame r1 r2' show ?thesis by (simp add: compute_metrics_except_def)
    next
      case (Inr m)
      with frame r1 r2' Cons.IH[OF Cons.prems, of t1 t2] show ?thesis
        by (auto split: prod.splits)
    qed
  qed
qed

lemma compute_metrics_append:
  "compute_metrics score mts pre s = (out, Blocked, s1) \<Longrightarrow>
     compute_metrics score mts (pre @ rest) s =
       (case compute_metrics score mts rest s1 of (out', r, s2) \<Rightarrow> (out @ out', r, s2))"
proof (induction pre arbitrary: s out)
  case Nil
  then show ?case by (simp split: prod.splits)
next
  case (Cons ev pre)
  show ?case
  proof (cases ev rule: frame_event_cases)
    case (exn e)
    with Cons.prems show ?thesis by (simp add: compute_metrics_except_def split: if_splits)
  next
    case (int n)
    with Cons.prems show ?thesis by (simp add: compute_metrics_except_def split: if_splits)
  next
    case (frame t px)
    obtain a1 t1 where r1: "score_all score px mts Map.empty s = (a1, t1)" by fastforce
    show ?thesis
    proof (cases a1)
      case (Inl e)
      with frame r1 Cons.prems show ?thesis by (simp add: compute_metrics_except_def split: if_splits)
    next
      case (Inr m)
      obtain o1 r' s' where r2: "compute_metrics score mts pre t1 = (o1, r', s')"
        by (cases "compute_metrics score mts pre t1") auto
      with frame r1 Inr Cons.prems have "r' = Blocked" "s' = s1"
        "out = Payload \<lparr>time = t, metrics = m\<rparr> # o1" by simp_all
      with frame r1 Inr r2 Cons.IH[of t1 o1] show ?thesis
        by (simp split: prod.splits)
    qed
  qed
qed

lemma compute_metrics_Blocked_all:
  "compute_metrics score mts evs s = (out, Blocked, s1) \<Longrightarrow>
     out = map Payload (payloads out) \<and> map time (payloads out) = map fst (offered evs)"
proof (induction evs arbitrary: s out)
  case Nil
  then show ?case by simp
next
  case (Cons ev evs)
  show ?case
  proof (cases ev rule: frame_event_cases)
    case (exn e)
    with Cons.prems show ?thesis by (simp add: compute_metrics_except_def split: if_splits)
  next
    case (int n)
    with Cons.prems show ?thesis by (simp add: compute_metrics_except_def split: if_splits)
  next
    case (frame t px)
    with Cons.prems Cons.IH show ?thesis
      by (fastforce simp: compute_metrics_except_def split: prod.splits sum.splits if_splits)
  qed
qed

lemma score_all_from:
  "score_all score px mts m s = (Inr m', s') \<Longrightarrow> m' mt = Some x \<Longrightarrow>
     m mt = Some x \<or> (mt \<in> set mts \<and> (\<exists>s1 s2. score px mt s1 = (Inr x, s2)))"
proof (induction mts arbitrary: m s)
  case Nil
  then show ?case by simp
next
  case (Cons a mts)
  from Cons.prems(1) obtain v s1 where
    a: "score px a s = (Inr v, s1)" and
    rest: "score_all score px mts (m(a \<mapsto> v)) s1 = (Inr m', s')"
    by (auto split: prod.splits sum.splits)
  from Cons.IH[OF rest Cons.prems(2)] a show ?case
    by (auto split: if_splits)
qed

lemma compute_metrics_values:
  "compute_metrics score mts evs s = (out, r, s') \<Longrightarrow> i < length (payloads out) \<Longrightarrow>
     metrics (payloads out ! i) mt = Some x \<Longrightarrow>
     \<exists>s1 s2. score (snd (offered evs ! i)) mt s1 = (Inr x, s2)"
proof (induction evs arbitrary: s out i)
  case Nil
  then show ?case by simp
next
  case (Cons ev evs)
  show ?case
  proof (cases ev rule: frame_event_cases)
    case (exn e)
    with Cons.prems show ?thesis by (auto simp: compute_metrics_except_def split: if_splits)
  next
    case (int n)
    with Cons.prems show ?thesis by (auto simp: compute_metrics_except_def split: if_splits)
  next
    case (frame t px)
    obtain a1 t1 where r1: "score_all score px mts Map.empty s = (a1, t1)" by fastforce
    show ?thesis
    proof (cases a1)
      case (Inl e)
      with frame r1 Cons.prems show ?thesis
        by (auto simp: compute_metrics_except_def split: if_splits)
    next
      case (Inr m)
      obtain o1 r' s1 where r2: "compute_metrics score mts evs t1 = (o1, r', s1)"
        by (cases "compute_metrics score mts evs t1") auto
      with frame r1 Inr Cons.prems(1)
      have out: "out = Payload \<lparr>time = t, metrics = m\<rparr> # o1" and "r' = r" "s1 = s'"
        by simp_all
      with r2 have r2': "compute_metrics score mts evs t1 = (o1, r, s')" by simp
      show ?thesis
      proof (cases i)
        case 0
        with out Cons.prems(3) have "m mt = Some x" by simp
        with score_all_from[OF r1[unfolded Inr]] frame 0 show ?thesis by auto
      next
        case (Suc i')
        with out Cons.prems(2,3) have "i' < length (payloads o1)"
          "metrics (payloads o1 ! i') mt = Some x" by simp_all
        from Cons.IH[OF r2' this] frame Suc show ?thesis by simp
      qed
    qed
  qed
qed

lemma offered_chan [simp]: "offered (chan items) = payloads items"
  by (induction items rule: payloads.induct) (simp_all add: chan_def)

lemma payloads_map_Payload_o: "payloads (map (\<lambda>i. Payload (f i)) xs) = map f xs"
  by (induction xs) simp_all

lemma graph_metrics_payloads:
  assumes "distinct mts" and "\<forall>v\<in>set vs. set mts \<subseteq> dom (metrics v)"
    and "ev = Inl ValueError \<or> ev = Inr (IntItem FINISH)"
    and "2 \<le> length mts"
  shows "graph_metrics graph_dir mts (chan (map Payload vs) @ ev # rest) =
     Returned \<lparr>plot_rows = map (\<lambda>mt. (mt, map time vs, map (\<lambda>v. the (metrics v mt)) vs)) mts,
               image_filename = graph_dir @ ''/frame_timeline.png''\<rparr>"
proof -
  have "graph_loop mts (chan (map Payload vs) @ ev # rest) [] (\<lambda>_. []) =
        Returned (map time vs, \<lambda>mt. if mt \<in> set mts then map (\<lambda>v. the (metrics v mt)) vs else [])"
    using assms(3) by (auto simp: graph_loop_payloads[OF assms(1,2)] cong: if_cong)
  moreover from assms(4) have "length mts \<noteq> 0" "length mts \<noteq> 1" by auto
  ultimately show ?thesis by (simp add: graph_metrics_def)
qed

lemma graph_metrics_Returned_length:
  assumes "graph_metrics graph_dir mts evs = Returned c"
  shows "2 \<le> length mts"
proof (rule ccontr)
  assume "\<not> 2 \<le> length mts"
  then consider "length mts = 0" | "length mts = 1" by linarith
  then show False
  proof cases
    case 1
    with assms show False
      by (cases "graph_loop mts evs [] (\<lambda>_. [])") (auto simp: graph_metrics_def)
  next
    case 2
    with assms show False
      by (cases "graph_loop mts evs [] (\<lambda>_. [])") (auto simp: graph_metrics_def)
  qed
qed

lemma graph_loop_Blocked:
  assumes "distinct mts" and "\<forall>v\<in>set vs. set mts \<subseteq> dom (metrics v)"
  shows "graph_metrics graph_dir mts (chan (map Payload vs)) = Blocked"
  using graph_loop_payloads[OF assms, of "[]" "[]" "\<lambda>_. []"] by (simp add: graph_metrics_def)


lemma capture_loop_fuel_mono:
  "capture_loop fuel clock screen w tbf t0 k j = Some x \<Longrightarrow>
     capture_loop (fuel + m) clock screen w tbf t0 k j = Some x"
proof (induction fuel arbitrary: k j x)
  case 0
  then show ?case by simp
next
  case (Suc fuel)
  show ?case
  proof (cases "total_seconds (clock k - t0) \<le> 5")
    case False
    with Suc.prems show ?thesis by simp
  next
    case True
    show ?thesis
    proof (cases "screen j w")
      case (Inl e)
      with True Suc.prems show ?thesis by simp
    next
      case (Inr raw)
      with True Suc.prems obtain y where
        y: "capture_loop fuel clock screen w tbf t0 (k + 3) (j + 1) = Some y"
        by (auto simp: Let_def split: option.splits)
      from Suc.IH[OF y] y True Inr Suc.prems show ?thesis
        by (simp add: Let_def)
    qed
  qed
qed

lemma capture_loop_not_Blocked:
  "capture_loop fuel clock screen w tbf t0 k j \<noteq> Some (tr, Blocked)"
proof (induction fuel arbitrary: k j tr)
  case 0
  then show ?case by simp
next
  case (Suc fuel)
  then show ?case
    by (auto simp: Let_def split: sum.splits option.splits)
qed

lemma capture_loop_trace_Raised:
  "capture_loop fuel clock screen w (1 / r) t0 k j = Some (tr, Raised e) \<Longrightarrow>
     \<exists>raws. (\<forall>i<length raws. screen (j + i) w = Inr (raws ! i)
                  \<and> total_seconds (clock (k + 3 * i) - t0) \<le> 5)
        \<and> total_seconds (clock (k + 3 * length raws) - t0) \<le> 5
        \<and> screen (j + length raws) w = Inl e
        \<and> tr = concat (map (\<lambda>i. paced_tick r w (clock (k + 3 * i + 1)) (clock (k + 3 * i + 2)) (raws ! i))
                          [0..<length raws]) @ [Capture w]"
proof (induction fuel arbitrary: k j tr)
  case 0
  then show ?case by simp
next
  case (Suc fuel)
  from Suc.prems have True: "total_seconds (clock k - t0) \<le> 5"
    by (auto split: if_splits)
  show ?case
  proof (cases "screen j w")
    case (Inl e')
    with True Suc.prems have "tr = [Capture w]" "e' = e" by simp_all
    with True Inl show ?thesis by (intro exI[of _ "[]"]) simp
  next
    case (Inr raw)
    with True Suc.prems obtain tr' where
      rest: "capture_loop fuel clock screen w (1 / r) t0 (k + 3) (j + 1) = Some (tr', Raised e)"
      and tr: "tr = paced_tick r w (clock (k + 1)) (clock (k + 2)) raw @ tr'"
      by (auto simp: Let_def paced_tick_def split: option.splits)
    from Suc.IH[OF rest] obtain raws where
      ih1: "\<forall>i<length raws. screen (j + 1 + i) w = Inr (raws ! i)
              \<and> total_seconds (clock (k + 3 + 3 * i) - t0) \<le> 5"
      and ih2: "total_seconds (clock (k + 3 + 3 * length raws) - t0) \<le> 5"
      and ih2': "screen (j + 1 + length raws) w = Inl e"
      and ih3: "tr' = concat (map (\<lambda>i. paced_tick r w (clock (k + 3 + 3 * i + 1))
                    (clock (k + 3 + 3 * i + 2)) (raws ! i)) [0..<length raws]) @ [Capture w]"
      by blast
    have a: "\<forall>i<length (raw # raws). screen (j + i) w = Inr ((raw # raws) ! i)
                  \<and> total_seconds (clock (k + 3 * i) - t0) \<le> 5"
    proof (intro allI impI)
      fix i assume "i < length (raw # raws)"
      then show "screen (j + i) w = Inr ((raw # raws) ! i)
                  \<and> total_seconds (clock (k + 3 * i) - t0) \<le> 5"
        using Inr True ih1 by (cases i) (auto simp: algebra_simps)
    qed
    have b: "total_seconds (clock (k + 3 * length (raw # raws)) - t0) \<le> 5"
      using ih2 by (simp add: algebra_simps)
    have b': "screen (j + length (raw # raws)) w = Inl e"
      using ih2' by (simp add: algebra_simps)
    have c: "tr = concat (map (\<lambda>i. paced_tick r w (clock (k + 3 * i + 1)) (clock (k + 3 * i + 2)) ((raw # raws) ! i))
                          [0..<length (raw # raws)]) @ [Capture w]"
      unfolding tr ih3 by (simp add: upt_shift algebra_simps del: upt_Suc)
    from a b b' c show ?thesis by blast
  qed
qed

lemma puts_paced_tick [simp]: "puts (paced_tick r w t1 t2 raw) = [Payload (t1, raw)]"
  by (simp add: paced_tick_def)

lemma puts_concat_ticks:
  "puts (concat (map (\<lambda>i. paced_tick r w (t1 i) (t2 i) (raw i)) ns))
     = map (\<lambda>i. Payload (t1 i, raw i)) ns"
  by (induction ns) simp_all

lemma capture_images_trace:
  assumes "capture_images fuel windows clock screen r = Some (tr, res)"
    and "get_zoom_window_id windows = Inr w" and "r \<noteq> 0"
  shows "\<exists>raws. (\<forall>i<length raws. screen i w = Inr (raws ! i))
       \<and> tr = concat (map (\<lambda>i. paced_tick r w (clock (3 * i + 2)) (clock (3 * i + 3)) (raws ! i))
                         [0..<length raws])
              @ (if res = Returned () then [Put (IntItem FINISH), Close] else [Capture w])"
proof -
  have idx: "\<And>i::nat. 1 + 3 * i + 1 = 3 * i + 2" "\<And>i::nat. 1 + 3 * i + 2 = 3 * i + 3"
    by simp_all
  from assms(1) show ?thesis
proof (cases rule: capture_images_cases)
  case (no_window e)
  with assms(2) show ?thesis by simp
next
  case (zero_rate w')
  with assms(3) show ?thesis by simp
next
  case (finished w' tr')
  with assms(2) have w: "w' = w" by simp
  from capture_loop_trace[OF finished(3)[unfolded w]] obtain raws where
    "\<forall>i<length raws. screen (0 + i) w = Inr (raws ! i)
        \<and> total_seconds (clock (1 + 3 * i) - clock 0) \<le> 5"
    "tr' = concat (map (\<lambda>i. paced_tick r w (clock (1 + 3 * i + 1)) (clock (1 + 3 * i + 2)) (raws ! i))
                          [0..<length raws])"
    by blast
  then have "\<forall>i<length raws. screen i w = Inr (raws ! i)"
    and "tr' = concat (map (\<lambda>i. paced_tick r w (clock (3 * i + 2)) (clock (3 * i + 3)) (raws ! i))
                          [0..<length raws])"
    by (simp, simp only: idx)
  with finished(4,5) show ?thesis
    by (intro exI[of _ raws]) simp
next
  case (died w' e)
  with assms(2) have w: "w' = w" by simp
  from capture_loop_trace_Raised[OF died(3)[unfolded w]] obtain raws where
    "\<forall>i<length raws. screen (0 + i) w = Inr (raws ! i)
        \<and> total_seconds (clock (1 + 3 * i) - clock 0) \<le> 5"
    "tr = concat (map (\<lambda>i. paced_tick r w (clock (1 + 3 * i + 1)) (clock (1 + 3 * i + 2)) (raws ! i))
                          [0..<length raws]) @ [Capture w]"
    by blast
  then have "\<forall>i<length raws. screen i w = Inr (raws ! i)"
    and "tr = concat (map (\<lambda>i. paced_tick r w (clock (3 * i + 2)) (clock (3 * i + 3)) (raws ! i))
                          [0..<length raws]) @ [Capture w]"
    by (simp, simp only: idx)
  with died(4) show ?thesis
    by (intro exI[of _ raws]) simp
next
  case (blocked w')
  with capture_loop_not_Blocked show ?thesis by blast
qed
qed

lemma capture_images_total:
  assumes "get_zoom_window_id windows = Inr w" and "frame_rate \<noteq> 0"
    and "\<forall>i<n. total_seconds (clock (3 * i + 1) - clock 0) \<le> 5 \<and> screen i w = Inr (raw i)"
    and "\<not> total_seconds (clock (3 * n + 1) - clock 0) \<le> 5"
    and "n < fuel"
  shows "\<exists>tr. capture_images fuel windows clock screen frame_rate = Some (tr, Returned ())
            \<and> puts tr = map (\<lambda>i. Payload (clock (3 * i + 2), raw i)) [0..<n] @ [IntItem FINISH]"
proof -
  let ?tbf = "1 / frame_rate"
  have "\<exists>tr. capture_loop (Suc n) clock screen w ?tbf (clock 0) 1 0 = Some (tr, Returned ())"
  proof (rule capture_loop_returns)
    fix i assume "i < n"
    with assms(3) show "total_seconds (clock (1 + 3 * i) - clock 0) \<le> 5
        \<and> (\<exists>raw. screen (0 + i) w = Inr raw)"
      by (auto simp: algebra_simps)
  next
    show "\<not> total_seconds (clock (1 + 3 * n) - clock 0) \<le> 5"
      using assms(4) by (simp add: algebra_simps)
  qed
  then obtain tr' where "capture_loop (Suc n) clock screen w ?tbf (clock 0) 1 0 = Some (tr', Returned ())"
    by blast
  from capture_loop_fuel_mono[OF this, of "fuel - Suc n"] assms(5)
  have loop: "capture_loop fuel clock screen w ?tbf (clock 0) 1 0 = Some (tr', Returned ())"
    by simp
  from capture_loop_trace[OF loop] obtain raws where
    r1: "\<forall>i<length raws. screen (0 + i) w = Inr (raws ! i)
        \<and> total_seconds (clock (1 + 3 * i) - clock 0) \<le> 5"
    and r2: "\<not> total_seconds (clock (1 + 3 * length raws) - clock 0) \<le> 5"
    and r3: "tr' = concat (map (\<lambda>i. paced_tick frame_rate w (clock (1 + 3 * i + 1)) (clock (1 + 3 * i + 2)) (raws ! i))
                          [0..<length raws])"
    by blast
  have len: "length raws = n"
  proof (rule ccontr)
    assume "length raws \<noteq> n"
    then consider "length raws < n" | "n < length raws" by linarith
    then show False
    proof cases
      case 1
      with assms(3) r2 show False by (auto simp: algebra_simps)
    next
      case 2
      with r1 assms(4) show False by (auto simp: algebra_simps)
    qed
  qed
  have "\<forall>i<n. raws ! i = raw i"
    using r1 assms(3) len by auto
  then have "map (\<lambda>i. Payload (clock (1 + 3 * i + 1), raws ! i)) [0..<n]
              = map (\<lambda>i. Payload (clock (3 * i + 2), raw i)) [0..<n]"
    by (auto simp: algebra_simps)
  with r3 len have "puts tr' = map (\<lambda>i. Payload (clock (3 * i + 2), raw i)) [0..<n]"
    by (simp add: puts_concat_ticks)
  with loop assms(1,2) show ?thesis
    by (simp add: capture_images_def)
qed

lemma get_zoom_window_id_none:
  assumes "\<forall>win\<in>set windows. \<exists>owner. kCGWindowOwnerName win = Some owner
             \<and> (owner \<noteq> ''zoom.us'' \<or> kCGWindowName win \<noteq> Some ''Zoom Meeting'')"
  shows "get_zoom_window_id windows = Inr (- 1)"
  using assms
proof (induction windows)
  case Nil
  then show ?case by simp
next
  case (Cons win windows)
  then obtain owner where o: "kCGWindowOwnerName win = Some owner"
    and n: "owner \<noteq> ''zoom.us'' \<or> kCGWindowName win \<noteq> Some ''Zoom Meeting''" by auto
  from Cons have rest: "get_zoom_window_id windows = Inr (- 1)" by simp
  from n have "\<not> (owner = ''zoom.us''
      \<and> (case kCGWindowName win of None \<Rightarrow> [] | Some name \<Rightarrow> name) = ''Zoom Meeting'')"
    by (cases "kCGWindowName win") auto
  with o rest show ?case by auto
qed

lemma paced_clock_run:
  "capture_images 3 zoom_open paced_clock (\<lambda>j w. Inr j) (1 / 2)
     = Some ([Capture 42, Put (Payload (0, 0 :: nat)), Sleep (3 / 2),
              Capture 42, Put (Payload (2000000, 1)),
              Put (IntItem FINISH), Close], Returned ())"
  by code_simp

lemma paced_clock_checks:
  "i < 2 \<Longrightarrow> total_seconds (paced_clock (3 * i + 1) - paced_clock 0) \<le> 5"
proof -
  assume "i < 2"
  then consider "i = 0" | "i = 1" by linarith
  then show ?thesis
    by cases (simp_all add: paced_clock_def readings_def total_seconds_def)
qed

lemma paced_clock_end:
  "\<not> total_seconds (paced_clock (3 * 2 + 1) - paced_clock 0) \<le> 5"
  by (simp add: paced_clock_def readings_def total_seconds_def)

section \<open>The claims\<close>

subsection \<open>C1: the sentinel on each queue\<close>




subsection \<open>C2: a scoring call that raises\<close>

text \<open>
  C2, as the code has it. Let \<open>compute_metrics\<close> have read the items \<open>pre\<close> and be
  waiting for the next one, having put \<open>out\<close>. If scoring the next frame raises
  \<open>ValueError\<close>, the function puts \<open>FINISH\<close> and returns: whatever follows on
  \<open>data_queue\<close> (\<open>rest\<close>) is never read, so that frame and all later ones are
  dropped. \<open>graph_metrics\<close>, when \<open>MetricType\<close> has the two members or more that
  its plotting part needs, then returns the chart of exactly the frames of \<open>pre\<close>.
\<close>

theorem compute_metrics_ValueError_stops:
  assumes "distinct mts" and "2 \<le> length mts"
    and "compute_metrics score mts pre s = (out, Blocked, s1)"
    and "fst (score_all score image_data mts Map.empty s1) = Inl ValueError"
  shows "fst (compute_metrics score mts (pre @ Inr (Payload (t, image_data)) # rest) s)
           = out @ [IntItem FINISH]
       \<and> fst (snd (compute_metrics score mts (pre @ Inr (Payload (t, image_data)) # rest) s))
           = Returned ()
       \<and> graph_metrics graph_dir mts (chan (out @ [IntItem FINISH]))
           = Returned \<lparr>plot_rows = map (\<lambda>mt. (mt, map fst (offered pre),
                                               map (\<lambda>v. the (metrics v mt)) (payloads out))) mts,
                       image_filename = graph_dir @ ''/frame_timeline.png''\<rparr>"
proof -
  obtain s2 where f: "score_all score image_data mts Map.empty s1 = (Inl ValueError, s2)"
    using assms(4) by (cases "score_all score image_data mts Map.empty s1") auto
  have run: "compute_metrics score mts (pre @ Inr (Payload (t, image_data)) # rest) s
               = (out @ [IntItem FINISH], Returned (), s2)"
    by (simp add: compute_metrics_append[OF assms(3)] f compute_metrics_except_def)
  from compute_metrics_Blocked_all[OF assms(3)]
  have shape: "out = map Payload (payloads out)"
    and times: "map time (payloads out) = map fst (offered pre)" by blast+
  have keys: "\<forall>v\<in>set (payloads out). set mts \<subseteq> dom (metrics v)"
    using compute_metrics_keys[OF assms(3)] by auto
  have "graph_metrics graph_dir mts (chan (map Payload (payloads out)) @ Inr (IntItem FINISH) # [])
          = Returned \<lparr>plot_rows = map (\<lambda>mt. (mt, map time (payloads out),
                                               map (\<lambda>v. the (metrics v mt)) (payloads out))) mts,
                       image_filename = graph_dir @ ''/frame_timeline.png''\<rparr>"
    using assms(1,2) keys by (intro graph_metrics_payloads) simp_all
  moreover have "chan (out @ [IntItem FINISH])
      = chan (map Payload (payloads out)) @ Inr (IntItem FINISH) # []"
    by (subst shape) (simp add: chan_def)
  ultimately show ?thesis using run times by simp
qed

text \<open>Two frames scored on two metrics, the third raising.\<close>

theorem compute_metrics_ValueError_stops_witness:
  "distinct [10, 20 :: nat]
   \<and> (2 :: nat) \<le> length [10, 20 :: nat]
   \<and> compute_metrics (\<lambda>px mt s. (if px = 3 then Inl ValueError else Inr (px + mt), Suc s))
        [10, 20 :: nat] (chan [Payload (100, 1 :: nat), Payload (200, 2)]) (0 :: nat)
      = ([Payload \<lparr>time = 100, metrics = [10 \<mapsto> 11, 20 \<mapsto> 21]\<rparr>,
          Payload \<lparr>time = 200, metrics = [10 \<mapsto> 12, 20 \<mapsto> 22]\<rparr>],
         Blocked, 4)
   \<and> fst (score_all (\<lambda>px mt s. (if px = 3 then Inl ValueError else Inr (px + mt), Suc s))
             (3 :: nat) [10, 20 :: nat] Map.empty (4 :: nat)) = Inl ValueError
   \<and> fst (compute_metrics (\<lambda>px mt s. (if px = 3 then Inl ValueError else Inr (px + mt), Suc s))
        [10, 20 :: nat]
        (chan [Payload (100, 1 :: nat), Payload (200, 2)]
           @ Inr (Payload (300, 3)) # chan [Payload (400, 4), Payload (500, 5), IntItem FINISH])
        (0 :: nat))
      = [Payload \<lparr>time = 100, metrics = [10 \<mapsto> 11, 20 \<mapsto> 21]\<rparr>,
         Payload \<lparr>time = 200, metrics = [10 \<mapsto> 12, 20 \<mapsto> 22]\<rparr>]
        @ [IntItem FINISH]
   \<and> graph_metrics ''out'' [10, 20 :: nat]
        (chan ([Payload \<lparr>time = 100, metrics = [10 \<mapsto> 11 :: nat, 20 \<mapsto> 21]\<rparr>,
                Payload \<lparr>time = 200, metrics = [10 \<mapsto> 12, 20 \<mapsto> 22]\<rparr>]
               @ [IntItem FINISH]))
      = Returned \<lparr>plot_rows = [(10, [100, 200], [11, 12]), (20, [100, 200], [21, 22])],
                  image_filename = ''out/frame_timeline.png''\<rparr>"
proof -
  let ?score = "\<lambda>px mt s. (if px = 3 then Inl ValueError else Inr (px + mt), Suc s) :: (exn + nat) \<times> nat"
  let ?out = "[Payload \<lparr>time = 100, metrics = [10 :: nat \<mapsto> 11 :: nat, 20 \<mapsto> 21]\<rparr>,
               Payload \<lparr>time = 200, metrics = [10 \<mapsto> 12, 20 \<mapsto> 22]\<rparr>]"
  have d: "distinct [10, 20 :: nat]" by simp
  have l: "(2 :: nat) \<le> length [10, 20 :: nat]" by simp
  have pre: "compute_metrics ?score [10, 20 :: nat]
        (chan [Payload (100, 1 :: nat), Payload (200, 2)]) (0 :: nat) = (?out, Blocked, 4)"
    by (simp add: chan_def)
  have bad: "fst (score_all ?score (3 :: nat) [10, 20 :: nat] Map.empty (4 :: nat)) = Inl ValueError"
    by simp
  note inst = compute_metrics_ValueError_stops[OF d l pre bad, of 300
      "chan [Payload (400, 4), Payload (500, 5), IntItem FINISH]" "''out''"]
  from inst d l pre bad show ?thesis by simp
qed

text \<open>
  C2 as stated fails. Of five frames scored on two metrics, with the scoring call
  raising \<open>ValueError\<close> on the third frame, the chart holds two entries in each
  row, not four.
\<close>

theorem compute_metrics_ValueError_counterexample:
  "graph_metrics ''out'' [10, 20 :: nat]
     (chan (fst (compute_metrics
        (\<lambda>px mt s. (if px = 3 then Inl ValueError else Inr (px + mt), Suc s)) [10, 20 :: nat]
        (chan [Payload (100, 1 :: nat), Payload (200, 2), Payload (300, 3), Payload (400, 4),
               Payload (500, 5), IntItem FINISH]) (0 :: nat))))
   = Returned \<lparr>plot_rows = [(10, [100, 200], [11, 12 :: nat]), (20, [100, 200], [21, 22])],
               image_filename = ''out/frame_timeline.png''\<rparr>"
  by (simp add: chan_def FINISH_def compute_metrics_except_def graph_metrics_def)

subsection \<open>C3: no window of the meeting\<close>

text \<open>
  C3, as the code has it. When no entry of the window list is the Zoom meeting
  (and every entry names its owner), \<open>get_zoom_window_id\<close> returns \<open>-1\<close> and raises
  nothing; \<open>capture_images\<close> does not look at the value, and in every run whose
  first test of the loop condition passes the first thing it does is to call
  \<open>capture_image(-1)\<close>: the loop is entered.
\<close>

theorem capture_images_window_not_found:
  assumes "\<forall>win\<in>set windows. \<exists>owner. kCGWindowOwnerName win = Some owner
             \<and> (owner \<noteq> ''zoom.us'' \<or> kCGWindowName win \<noteq> Some ''Zoom Meeting'')"
  shows "get_zoom_window_id windows = Inr (- 1)
       \<and> (frame_rate \<noteq> 0 \<and> total_seconds (clock 1 - clock 0) \<le> 5
            \<and> capture_images fuel windows clock screen frame_rate = Some (tr, r)
          \<longrightarrow> (\<exists>tr'. tr = Capture (- 1) # tr'))"
proof (intro conjI impI)
  show w: "get_zoom_window_id windows = Inr (- 1)"
    using assms by (rule get_zoom_window_id_none)
  assume a: "frame_rate \<noteq> 0 \<and> total_seconds (clock 1 - clock 0) \<le> 5
            \<and> capture_images fuel windows clock screen frame_rate = Some (tr, r)"
  then have run: "capture_images fuel windows clock screen frame_rate = Some (tr, r)" by simp
  from capture_images_trace[OF run w] a obtain raws where
    tr: "tr = concat (map (\<lambda>i. paced_tick frame_rate (- 1) (clock (3 * i + 2)) (clock (3 * i + 3)) (raws ! i))
                         [0..<length raws])
              @ (if r = Returned () then [Put (IntItem FINISH), Close] else [Capture (- 1)])"
    by blast
  show "\<exists>tr'. tr = Capture (- 1) # tr'"
  proof (cases raws)
    case (Cons x xs)
    with tr show ?thesis by (simp add: upt_shift paced_tick_def del: upt_Suc)
  next
    case Nil
    with tr have tr': "tr = (if r = Returned () then [Put (IntItem FINISH), Close] else [Capture (- 1)])"
      by simp
    have "r \<noteq> Returned ()"
    proof
      assume r: "r = Returned ()"
      from run show False
      proof (cases rule: capture_images_cases)
        case (finished w' tr'')
        with w have w': "w' = - 1" by simp
        from finished(4) tr' r have "tr'' = []" by simp
        with finished(3) a show False
          by (cases fuel) (auto simp: Let_def split: sum.splits option.splits)
      qed (use r in simp_all)
    qed
    with tr' show ?thesis by simp
  qed
qed

text \<open>Only the Finder on screen.\<close>

theorem capture_images_window_not_found_witness:
  "kCGWindowOwnerName (hd finder_only) = Some ''Finder''
   \<and> ''Finder'' \<noteq> ''zoom.us''
   \<and> get_zoom_window_id finder_only = Inr (- 1)
   \<and> (30 :: real) \<noteq> 0
   \<and> total_seconds (readings [0, 0, 1000000, 2000000, 6000000] 1
                      - readings [0, 0, 1000000, 2000000, 6000000] 0) \<le> 5
   \<and> capture_images 2 finder_only (readings [0, 0, 1000000, 2000000, 6000000])
        (\<lambda>j w. Inr j :: exn + nat) 30
     = Some (Capture (- 1) # [Put (Payload (1000000, 0)), Put (IntItem FINISH), Close], Returned ())"
proof -
  let ?clock = "readings [0, 0, 1000000, 2000000, 6000000]"
  have h: "\<forall>win\<in>set finder_only. \<exists>owner. kCGWindowOwnerName win = Some owner
             \<and> (owner \<noteq> ''zoom.us'' \<or> kCGWindowName win \<noteq> Some ''Zoom Meeting'')"
    by (simp add: finder_only_def)
  have o: "kCGWindowOwnerName (hd finder_only) = Some ''Finder''" "''Finder'' \<noteq> ''zoom.us''"
    by (simp_all add: finder_only_def)
  have c: "total_seconds (?clock 1 - ?clock 0) \<le> 5"
    by (simp add: readings_def total_seconds_def)
  have run: "capture_images 2 finder_only ?clock (\<lambda>j w. Inr j :: exn + nat) 30
     = Some (Capture (- 1) # [Put (Payload (1000000, 0)), Put (IntItem FINISH), Close], Returned ())"
    by code_simp
  from capture_images_window_not_found[OF h, of 30 ?clock 2 "\<lambda>j w. Inr j"] o c run
  show ?thesis by simp
qed

text \<open>
  C3 as stated fails. With only the Finder on screen and a \<open>capture_image\<close> that
  returns a buffer, \<open>capture_images\<close> raises nothing, puts a frame on
  \<open>data_queue\<close>, then \<open>FINISH\<close>, and returns.
\<close>

theorem capture_images_window_not_found_counterexample:
  "get_zoom_window_id finder_only = Inr (- 1)
   \<and> capture_images 2 finder_only (readings [0, 0, 1000000, 2000000, 6000000])
        (\<lambda>j w. Inr j :: exn + nat) 30
     = Some ([Capture (- 1), Put (Payload (1000000, 0)), Put (IntItem FINISH), Close], Returned ())
   \<and> puts [Capture (- 1), Put (Payload (1000000, 0 :: nat)), Put (IntItem FINISH), Close]
     = [Payload (1000000, 0), IntItem FINISH]"
  by (intro conjI; code_simp)

subsection \<open>C4: the pacing of the ticks\<close>

text \<open>
  C4. Once the window is found and the rate \<open>r\<close> is not zero, the trace of
  \<open>capture_images\<close> is one \<open>paced_tick\<close> after the other, tick \<open>i\<close> made of the
  \<open>i\<close>-th capture, put with the time read before it, and the sleep of
  \<open>1/r - diff\<close> when \<open>diff < 1/r\<close> for the two times read around it (no sleep
  otherwise); no tick is left out and none comes twice. After the ticks come the
  sentinel and the close when the function returned, or the one capture that
  raised.
\<close>

theorem capture_images_paced:
  assumes "capture_images fuel windows clock screen r = Some (tr, res)"
    and "get_zoom_window_id windows = Inr w" and "r \<noteq> 0"
  shows "\<exists>raws. (\<forall>i<length raws. screen i w = Inr (raws ! i))
       \<and> tr = concat (map (\<lambda>i. paced_tick r w (clock (3 * i + 2)) (clock (3 * i + 3)) (raws ! i))
                         [0..<length raws])
              @ (if res = Returned () then [Put (IntItem FINISH), Close] else [Capture w])"
  using assms by (rule capture_images_trace)

text \<open>A first tick with slack, a second without.\<close>

theorem capture_images_paced_witness:
  "capture_images 3 zoom_open paced_clock (\<lambda>j w. Inr j) (1 / 2)
     = Some ([Capture 42, Put (Payload (0, 0 :: nat)), Sleep (3 / 2),
              Capture 42, Put (Payload (2000000, 1)),
              Put (IntItem FINISH), Close], Returned ())
   \<and> get_zoom_window_id zoom_open = Inr 42
   \<and> (1 / 2 :: real) \<noteq> 0
   \<and> [Capture 42, Put (Payload (0, 0 :: nat)), Sleep (3 / 2),
       Capture 42, Put (Payload (2000000, 1)), Put (IntItem FINISH), Close]
     = paced_tick (1 / 2) 42 (paced_clock 2) (paced_clock 3) 0
       @ paced_tick (1 / 2) 42 (paced_clock 5) (paced_clock 6) 1
       @ [Put (IntItem FINISH), Close]"
proof -
  have w: "get_zoom_window_id zoom_open = Inr 42" by code_simp
  have r: "(1 / 2 :: real) \<noteq> 0" by simp
  have ticks: "[Capture 42, Put (Payload (0, 0 :: nat)), Sleep (3 / 2),
       Capture 42, Put (Payload (2000000, 1)), Put (IntItem FINISH), Close]
     = paced_tick (1 / 2) 42 (paced_clock 2) (paced_clock 3) 0
       @ paced_tick (1 / 2) 42 (paced_clock 5) (paced_clock 6) 1
       @ [Put (IntItem FINISH), Close]"
    by (simp add: paced_tick_def paced_clock_def readings_def total_seconds_def FINISH_def)
  from capture_images_paced[OF paced_clock_run w r] paced_clock_run w r ticks
  show ?thesis by blast
qed

subsection \<open>C5: the order of the timeline\<close>

text \<open>
  C5, as the code has it. Let \<open>data_queue\<close> hold the frames \<open>frames\<close> and then
  \<open>FINISH\<close>, and let \<open>graph_metrics\<close> return the chart \<open>c\<close> from what
  \<open>compute_metrics\<close> put on \<open>result_queue\<close> (it returns one only when
  \<open>MetricType\<close> has two members or more). Then every row of the chart lists the
  records in the order of the frames: the \<open>i\<close>-th entry has the time of the
  \<open>i\<close>-th frame and a score of that frame. The times are non-decreasing if those
  of the frames are; nothing in the code sorts.
\<close>

theorem timeline_in_capture_order:
  assumes "distinct mts"
    and "compute_metrics score mts (chan (map Payload frames @ [IntItem FINISH])) s = (out, r, s')"
    and "graph_metrics graph_dir mts (chan out) = Returned c"
  shows "plot_rows c = map (\<lambda>mt. (mt, map time (payloads out),
                                   map (\<lambda>v. the (metrics v mt)) (payloads out))) mts
       \<and> length (payloads out) \<le> length frames
       \<and> map time (payloads out) = map fst (take (length (payloads out)) frames)
       \<and> (\<forall>i<length (payloads out). \<forall>mt\<in>set mts. \<exists>s1 s2.
             score (snd (frames ! i)) mt s1 = (Inr (the (metrics (payloads out ! i) mt)), s2))
       \<and> (sorted (map fst frames) \<longrightarrow> sorted (map time (payloads out)))"
proof -
  define vs where "vs = payloads out"
  have two: "2 \<le> length mts"
    using assms(3) by (rule graph_metrics_Returned_length)
  have keys: "\<forall>v\<in>set vs. dom (metrics v) = set mts"
    unfolding vs_def using compute_metrics_keys[OF assms(2)] by blast
  then have keys': "\<forall>v\<in>set vs. set mts \<subseteq> dom (metrics v)" by simp
  have shape: "out = map Payload vs @ (if r = Returned () then [IntItem FINISH] else [])"
    unfolding vs_def using compute_metrics_shape[OF assms(2)] .
  have r: "r = Returned ()"
  proof (rule ccontr)
    assume "r \<noteq> Returned ()"
    with shape have "out = map Payload vs" by simp
    with graph_loop_Blocked[OF assms(1) keys', of graph_dir] assms(3) show False by simp
  qed
  with shape have "chan out = chan (map Payload vs) @ Inr (IntItem FINISH) # []"
    by (simp add: chan_def)
  with graph_metrics_payloads[OF assms(1) keys' _ two, of "Inr (IntItem FINISH)" graph_dir "[]"]
    assms(3)
  have rows: "plot_rows c = map (\<lambda>mt. (mt, map time vs, map (\<lambda>v. the (metrics v mt)) vs)) mts"
    by auto
  have off: "offered (chan (map Payload frames @ [IntItem FINISH])) = frames" by simp
  from compute_metrics_times[OF assms(2)] off
  have times: "map time vs = take (length vs) (map fst frames)" by (simp add: vs_def)
  then have "length (map time vs) = length (take (length vs) (map fst frames))" by simp
  then have len: "length vs \<le> length frames" by simp
  have vals: "\<forall>i<length vs. \<forall>mt\<in>set mts. \<exists>s1 s2.
             score (snd (frames ! i)) mt s1 = (Inr (the (metrics (vs ! i) mt)), s2)"
  proof (intro allI impI ballI)
    fix i mt assume i: "i < length vs" and mt: "mt \<in> set mts"
    with keys have "mt \<in> dom (metrics (vs ! i))" by (metis nth_mem)
    then obtain x where x: "metrics (vs ! i) mt = Some x" by auto
    from i have i': "i < length (payloads out)" by (simp add: vs_def)
    from x have x': "metrics (payloads out ! i) mt = Some x" by (simp add: vs_def)
    from compute_metrics_values[OF assms(2) i' x'] off x
    show "\<exists>s1 s2. score (snd (frames ! i)) mt s1 = (Inr (the (metrics (vs ! i) mt)), s2)"
      by simp
  qed
  have srt: "sorted (map fst frames) \<longrightarrow> sorted (map time vs)"
    using times by (simp add: sorted_wrt_take)
  from rows len times vals srt show ?thesis unfolding vs_def by (simp add: take_map)
qed

text \<open>Two frames in the order of their times, scored on two metrics.\<close>

theorem timeline_in_capture_order_witness:
  "distinct [10, 20 :: nat]
   \<and> compute_metrics (\<lambda>px mt s. (Inr (px + mt), Suc s)) [10, 20 :: nat]
        (chan (map Payload [(100, 1 :: nat), (200, 2)] @ [IntItem FINISH])) (0 :: nat)
     = ([Payload \<lparr>time = 100, metrics = [10 \<mapsto> 11, 20 \<mapsto> 21]\<rparr>,
         Payload \<lparr>time = 200, metrics = [10 \<mapsto> 12, 20 \<mapsto> 22]\<rparr>,
         IntItem FINISH], Returned (), 4)
   \<and> graph_metrics ''out'' [10, 20 :: nat]
        (chan [Payload \<lparr>time = 100, metrics = [10 \<mapsto> 11 :: nat, 20 \<mapsto> 21]\<rparr>,
               Payload \<lparr>time = 200, metrics = [10 \<mapsto> 12, 20 \<mapsto> 22]\<rparr>, IntItem FINISH])
     = Returned \<lparr>plot_rows = [(10, [100, 200], [11, 12]), (20, [100, 200], [21, 22])],
                 image_filename = ''out/frame_timeline.png''\<rparr>
   \<and> sorted (map fst [(100 :: int, 1 :: nat), (200, 2)])
   \<and> sorted (map time (payloads
         [Payload \<lparr>time = 100, metrics = [10 :: nat \<mapsto> 11 :: nat, 20 \<mapsto> 21]\<rparr>,
          Payload \<lparr>time = 200, metrics = [10 \<mapsto> 12, 20 \<mapsto> 22]\<rparr>, IntItem FINISH]))"
proof -
  let ?score = "\<lambda>px mt s. (Inr (px + mt), Suc s) :: (exn + nat) \<times> nat"
  let ?out = "[Payload \<lparr>time = 100, metrics = [10 :: nat \<mapsto> 11 :: nat, 20 \<mapsto> 21]\<rparr>,
               Payload \<lparr>time = 200, metrics = [10 \<mapsto> 12, 20 \<mapsto> 22]\<rparr>, IntItem FINISH]"
  have d: "distinct [10, 20 :: nat]" by simp
  have sc: "compute_metrics ?score [10, 20 :: nat]
        (chan (map Payload [(100, 1 :: nat), (200, 2)] @ [IntItem FINISH])) (0 :: nat)
     = (?out, Returned (), 4)"
    by (simp add: chan_def FINISH_def)
  have g: "graph_metrics ''out'' [10, 20 :: nat] (chan ?out)
     = Returned \<lparr>plot_rows = [(10, [100, 200], [11, 12]), (20, [100, 200], [21, 22])],
                 image_filename = ''out/frame_timeline.png''\<rparr>"
    by (simp add: chan_def FINISH_def graph_metrics_def)
  have s: "sorted (map fst [(100 :: int, 1 :: nat), (200, 2)])" by simp
  from timeline_in_capture_order[OF d sc g] s d sc g show ?thesis by blast
qed

text \<open>
  C5 as stated fails. The times of the frames are readings of \<open>datetime.now()\<close>,
  the wall clock. When it is set back between two ticks, the chart of a run on
  two metrics, in the order of capture, is not non-decreasing in time.
\<close>

theorem timeline_not_monotone_counterexample:
  "run_video_processes 3 ''out'' zoom_open
      (readings [0, 0, 3000000, 3000000, 3000000, 1000000, 1000000, 6000000])
      (\<lambda>j w. Inr j) (\<lambda>px mt s. (Inr (px + mt), Suc s)) [10, 20 :: nat] (0 :: nat)
    = Some (Returned (), Returned (),
            Returned \<lparr>plot_rows = [(10, [3000000, 1000000], [10, 11]),
                                   (20, [3000000, 1000000], [20, 21])],
                      image_filename = ''out/frame_timeline.png''\<rparr>)
   \<and> \<not> sorted [3000000, 1000000 :: int]"
  by (intro conjI; code_simp)

subsection \<open>C6: the score vector of a scored frame\<close>

text \<open>
  C6. Whatever \<open>compute_metrics\<close> reads and however it ends, every
  \<open>VideoMetrics\<close> it has put on \<open>result_queue\<close> has exactly the members of
  \<open>MetricType\<close> as the keys of its \<open>metrics\<close>; the \<open>i\<close>-th record put carries the
  capture time of the \<open>i\<close>-th frame offered on \<open>data_queue\<close>, unchanged; and each of
  its entries is a value the scoring call returned for that frame and that metric.
\<close>

theorem compute_metrics_score_vector:
  assumes "compute_metrics score mts evs s = (out, r, s')"
  shows "(\<forall>v\<in>set (payloads out). dom (metrics v) = set mts)
       \<and> map time (payloads out) = take (length (payloads out)) (map fst (offered evs))
       \<and> (\<forall>i<length (payloads out). \<forall>mt x. metrics (payloads out ! i) mt = Some x \<longrightarrow>
            (\<exists>s1 s2. score (snd (offered evs ! i)) mt s1 = (Inr x, s2)))"
  using compute_metrics_keys[OF assms] compute_metrics_times[OF assms]
    compute_metrics_values[OF assms] by blast

text \<open>
  One frame taken at time 100 with the two metrics 10 and 20, scored by a call
  that counts its invocations.
\<close>

theorem compute_metrics_score_vector_witness:
  "compute_metrics (\<lambda>px mt s. (Inr (px + mt), Suc s)) [10, 20 :: nat]
       (chan [Payload (100, 1), IntItem FINISH]) (0 :: nat)
     = ([Payload \<lparr>time = 100, metrics = [10 \<mapsto> 11, 20 \<mapsto> 21]\<rparr>, IntItem FINISH],
        Returned (), 2)
   \<and> dom (metrics \<lparr>time = 100, metrics = [10 :: nat \<mapsto> 11 :: nat, 20 \<mapsto> 21]\<rparr>)
       = set [10, 20]
   \<and> map time [\<lparr>time = 100, metrics = [10 :: nat \<mapsto> 11 :: nat, 20 \<mapsto> 21]\<rparr>] = [100]"
proof -
  let ?v = "\<lparr>time = 100, metrics = [10 :: nat \<mapsto> 11 :: nat, 20 \<mapsto> 21]\<rparr>"
  have run: "compute_metrics (\<lambda>px mt s. (Inr (px + mt), Suc s)) [10, 20 :: nat]
       (chan [Payload (100, 1), IntItem FINISH]) (0 :: nat)
     = ([Payload ?v, IntItem FINISH], Returned (), 2)"
    by (simp add: chan_def FINISH_def)
  from compute_metrics_score_vector[OF run] run show ?thesis
    by (simp add: chan_def)
qed

subsection \<open>C8: two runs on the same frames\<close>

text \<open>
  C8. Let the scoring call be deterministic. Two runs of \<open>compute_metrics\<close> that
  read the same items from \<open>data_queue\<close>, whatever state the scoring call is in
  at the start of either, put the same items on \<open>result_queue\<close>; \<open>graph_metrics\<close>
  then gathers the same lists and draws the same chart.
\<close>

theorem deterministic_timeline:
  assumes "deterministic score"
  shows "fst (compute_metrics score mts evs s1) = fst (compute_metrics score mts evs s2)
       \<and> graph_loop mts (chan (fst (compute_metrics score mts evs s1))) [] (\<lambda>_. [])
         = graph_loop mts (chan (fst (compute_metrics score mts evs s2))) [] (\<lambda>_. [])
       \<and> graph_metrics graph_dir mts (chan (fst (compute_metrics score mts evs s1)))
         = graph_metrics graph_dir mts (chan (fst (compute_metrics score mts evs s2)))"
  using compute_metrics_deterministic[OF assms, of mts evs s1 s2] by simp

text \<open>A scoring call that counts its invocations, started at 0 and at 7.\<close>

theorem deterministic_timeline_witness:
  "deterministic (\<lambda>px mt s. (Inr (px + mt), Suc s) :: (exn + nat) \<times> nat)
   \<and> fst (compute_metrics (\<lambda>px mt s. (Inr (px + mt), Suc s)) [10, 20 :: nat]
            (chan [Payload (100, 1 :: nat), Payload (200, 2), IntItem FINISH]) (0 :: nat))
     = fst (compute_metrics (\<lambda>px mt s. (Inr (px + mt), Suc s)) [10, 20 :: nat]
            (chan [Payload (100, 1 :: nat), Payload (200, 2), IntItem FINISH]) (7 :: nat))"
proof -
  have d: "deterministic (\<lambda>px mt s. (Inr (px + mt), Suc s) :: (exn + nat) \<times> nat)"
    by (simp add: deterministic_def)
  from deterministic_timeline[OF d] d show ?thesis by blast
qed

subsection \<open>C9: the number of frames of a run\<close>

text \<open>
  C9, as the code has it. When \<open>n\<close> tests of the loop condition pass, the \<open>n\<close>
  captures succeed and the next test fails, \<open>capture_images\<close> returns, having put
  exactly \<open>n\<close> frames and then \<open>FINISH\<close>. So a run that returns has put a frame
  before the sentinel exactly when the first test passed, that is when the second
  reading of the clock is within five seconds of the first.
\<close>

theorem capture_images_frame_count:
  assumes "get_zoom_window_id windows = Inr w" and "frame_rate \<noteq> 0"
    and "\<forall>i<n. total_seconds (clock (3 * i + 1) - clock 0) \<le> 5 \<and> screen i w = Inr (raw i)"
    and "\<not> total_seconds (clock (3 * n + 1) - clock 0) \<le> 5"
    and "n < fuel"
  shows "\<exists>tr. capture_images fuel windows clock screen frame_rate = Some (tr, Returned ())
            \<and> puts tr = map (\<lambda>i. Payload (clock (3 * i + 2), raw i)) [0..<n] @ [IntItem FINISH]
            \<and> (payloads (puts tr) \<noteq> [] \<longleftrightarrow> total_seconds (clock 1 - clock 0) \<le> 5)"
proof -
  from capture_images_total[of windows w frame_rate n clock screen raw fuel] assms obtain tr where
    run: "capture_images fuel windows clock screen frame_rate = Some (tr, Returned ())"
    and p: "puts tr = map (\<lambda>i. Payload (clock (3 * i + 2), raw i)) [0..<n] @ [IntItem FINISH]"
    by blast
  have "payloads (puts tr) = map (\<lambda>i. (clock (3 * i + 2), raw i)) [0..<n]"
    unfolding p by (simp add: payloads_map_Payload_o)
  then have "payloads (puts tr) \<noteq> [] \<longleftrightarrow> 0 < n" by simp
  moreover have "0 < n \<longleftrightarrow> total_seconds (clock 1 - clock 0) \<le> 5"
  proof (cases n)
    case 0
    with assms(4) show ?thesis by simp
  next
    case (Suc m)
    with assms(3) have "total_seconds (clock (3 * 0 + 1) - clock 0) \<le> 5" by blast
    with Suc show ?thesis by simp
  qed
  ultimately show ?thesis using run p by blast
qed

text \<open>Two ticks under \<open>paced_clock\<close>.\<close>

theorem capture_images_frame_count_witness:
  "get_zoom_window_id zoom_open = Inr 42
   \<and> (1 / 2 :: real) \<noteq> 0
   \<and> total_seconds (paced_clock 1 - paced_clock 0) \<le> 5
   \<and> total_seconds (paced_clock 4 - paced_clock 0) \<le> 5
   \<and> \<not> total_seconds (paced_clock 7 - paced_clock 0) \<le> 5
   \<and> (2 :: nat) < 3
   \<and> capture_images 3 zoom_open paced_clock (\<lambda>j w. Inr j) (1 / 2)
     = Some ([Capture 42, Put (Payload (0, 0 :: nat)), Sleep (3 / 2),
              Capture 42, Put (Payload (2000000, 1)),
              Put (IntItem FINISH), Close], Returned ())
   \<and> puts [Capture 42, Put (Payload (0, 0 :: nat)), Sleep (3 / 2),
            Capture 42, Put (Payload (2000000, 1)), Put (IntItem FINISH), Close]
     = map (\<lambda>i. Payload (paced_clock (3 * i + 2), i)) [0..<2] @ [IntItem FINISH]"
proof -
  have w: "get_zoom_window_id zoom_open = Inr 42" by code_simp
  have r: "(1 / 2 :: real) \<noteq> 0" by simp
  have f: "(2 :: nat) < 3" by simp
  have checks: "total_seconds (paced_clock 1 - paced_clock 0) \<le> 5"
    "total_seconds (paced_clock 4 - paced_clock 0) \<le> 5"
    "\<not> total_seconds (paced_clock 7 - paced_clock 0) \<le> 5"
    by (simp_all add: paced_clock_def readings_def total_seconds_def)
  from capture_images_frame_count[of zoom_open 42 "1 / 2" 2 paced_clock "\<lambda>j w. Inr j"
      "\<lambda>i. i" 3] w r f paced_clock_checks paced_clock_end paced_clock_run
  have "puts [Capture 42, Put (Payload (0, 0 :: nat)), Sleep (3 / 2),
            Capture 42, Put (Payload (2000000, 1)), Put (IntItem FINISH), Close]
     = map (\<lambda>i. Payload (paced_clock (3 * i + 2), i)) [0..<2] @ [IntItem FINISH]"
    by auto
  with w r f checks paced_clock_run show ?thesis by blast
qed

text \<open>
  C9 as stated fails. When six seconds lie between the first two readings of the
  clock, the loop body never runs and \<open>FINISH\<close> is all that is put.
\<close>

theorem capture_images_zero_frames_counterexample:
  "capture_images 1 zoom_open (readings [0, 6000000]) (\<lambda>j w. Inr j :: exn + nat) 30
     = Some ([Put (IntItem FINISH), Close], Returned ())"
  by code_simp

subsection \<open>C10: a \<open>ValueError\<close> in the sink\<close>



end
